theory Spec2Isabelle
  imports Main "HOL-Library.Word"
begin

unbundle bit_operations_syntax

section \<open>Audio buffers and samples\<close>

text \<open>
  A Node \<open>Buffer\<close> is a list of bytes. \<open>new Int16Array(buf.buffer, buf.byteOffset,
  buf.length / 2)\<close> views it as little-endian 16-bit samples; the length argument is
  truncated to an integer, so a trailing odd byte is not part of the view.
\<close>

type_synonym byte = "8 word"
type_synonym buffer = "byte list"

fun int16_view :: "buffer \<Rightarrow> 16 word list" where
  "int16_view (lo # hi # bs) = (push_bit 8 (ucast hi) OR ucast lo) # int16_view bs"
| "int16_view bs = []"

text \<open>
  \<open>Buffer.from(Int16Array.from(frame).buffer)\<close>: every number of the frame is converted
  to a 16-bit integer (modulo \<open>2 ^ 16\<close>) and stored as two bytes, low byte first. The
  numbers held in the accumulator are modelled by their integral value.
\<close>

definition int16_bytes :: "16 word \<Rightarrow> buffer" where
  "int16_bytes w = [ucast w, ucast (drop_bit 8 w)]"

definition frame_buffer :: "int list \<Rightarrow> buffer" where
  "frame_buffer frame = concat (map (\<lambda>s. int16_bytes (word_of_int s)) frame)"

section \<open>The downsample and frame pipeline\<close>

text \<open>
  The converter \<open>globalDownsampler\<close> is an instance of an external library. Its method
  \<open>full\<close> is a parameter of the model: from the converter's state and the input samples
  it gives the converted samples and the converter's next state.
\<close>

type_synonym 'r resampler = "'r \<Rightarrow> 16 word list \<Rightarrow> int list \<times> 'r"

text \<open>
  The frame extraction loop of \<open>processGeminiAudioChunk\<close>:
  \<^verbatim>\<open>while (audioBuffer8k.length >= 160) { frame = slice(0, 160); audioBuffer8k = slice(160);
  audioFrames.push(...) }\<close>. It returns the frames and the remaining accumulator.
\<close>

function extract_frames :: "int list \<Rightarrow> buffer list \<Rightarrow> buffer list \<times> int list" where
  "extract_frames audioBuffer8k audioFrames =
     (if length audioBuffer8k \<ge> 160
      then extract_frames (drop 160 audioBuffer8k)
             (audioFrames @ [frame_buffer (take 160 audioBuffer8k)])
      else (audioFrames, audioBuffer8k))"
  by pat_completeness auto
termination
  by (relation "measure (\<lambda>(b, fs). length b)") auto

declare extract_frames.simps [simp del]

text \<open>
  \<open>processGeminiAudioChunk\<close> on the converter state \<open>r\<close> and the connection's accumulator:
  the frames it returns, the converter's next state and the next accumulator.
\<close>

definition processGeminiAudioChunk ::
  "'r resampler \<Rightarrow> 'r \<Rightarrow> int list \<Rightarrow> buffer \<Rightarrow> buffer list \<times> 'r \<times> int list" where
  "processGeminiAudioChunk full r audioBuffer8k inputBuffer =
     (let inputSamples = int16_view inputBuffer;
          (downsampledSamples, r') = full r inputSamples;
          (audioFrames, rest) = extract_frames (audioBuffer8k @ downsampledSamples) []
      in (audioFrames, r', rest))"

text \<open>Feeding a sequence of chunks to one connection, collecting every frame in order.\<close>

fun process_chunks ::
  "'r resampler \<Rightarrow> 'r \<Rightarrow> int list \<Rightarrow> buffer list \<Rightarrow> buffer list \<times> 'r \<times> int list" where
  "process_chunks full r acc [] = ([], r, acc)"
| "process_chunks full r acc (c # cs) =
     (let (fs, r', acc') = processGeminiAudioChunk full r acc c;
          (gs, r'', acc'') = process_chunks full r' acc' cs
      in (fs @ gs, r'', acc''))"

text \<open>The converted samples of a sequence of chunks, in call order.\<close>

fun converted_stream :: "'r resampler \<Rightarrow> 'r \<Rightarrow> buffer list \<Rightarrow> int list" where
  "converted_stream full r [] = []"
| "converted_stream full r (c # cs) =
     (let (ys, r') = full r (int16_view c) in ys @ converted_stream full r' cs)"

text \<open>
  The accumulator cut into consecutive runs of 160 samples, the incomplete last run left
  out: what the extraction loop removes from the front, run by run.
\<close>

function chunk160 :: "int list \<Rightarrow> int list list" where
  "chunk160 b = (if length b \<ge> 160 then take 160 b # chunk160 (drop 160 b) else [])"
  by pat_completeness auto
termination
  by (relation "measure length") auto

declare chunk160.simps [simp del]

section \<open>The rate converter\<close>

text \<open>
  Modelled from the spec: the converter behind \<open>create(1, 24000, 8000)\<close> and its method
  \<open>full\<close> belong to an external library and are not part of the sources. The spec
  describes a stateful converter (source rate, target rate, channel count, history) that
  turns 600 samples at 24000 Hz into 200 samples at 8000 Hz, keeps the sample order,
  drops nothing across call boundaries and carries history from one call to the next.
  Towards a lower rate the model keeps the input samples that do not yet fill a group
  of \<open>src_rate div dst_rate\<close> as history and gives one sample for every full group;
  towards a higher rate it gives every input sample \<open>dst_rate div src_rate\<close> times at
  once and keeps no history.
\<close>

record converter =
  channels :: nat
  src_rate :: nat
  dst_rate :: nat
  history :: "16 word list"

definition create :: "nat \<Rightarrow> nat \<Rightarrow> nat \<Rightarrow> converter" where
  "create ch src dst = \<lparr>channels = ch, src_rate = src, dst_rate = dst, history = []\<rparr>"

function decimate :: "nat \<Rightarrow> 'a list \<Rightarrow> 'a list \<times> 'a list" where
  "decimate k xs =
     (if 0 < k \<and> k \<le> length xs
      then (let (ys, h) = decimate k (drop k xs) in (hd xs # ys, h))
      else ([], xs))"
  by pat_completeness auto
termination
  by (relation "measure (\<lambda>(k, xs). length xs)") auto

declare decimate.simps [simp del]

definition converter_full :: "converter resampler" where
  "converter_full c xs =
     (if src_rate c < dst_rate c
      then (concat (map (\<lambda>x. replicate (dst_rate c div src_rate c) (sint x)) xs), c)
      else (let (ys, h) = decimate (src_rate c div dst_rate c) (history c @ xs)
            in (map sint ys, c\<lparr>history := h\<rparr>)))"

section \<open>Sessions sharing the process-wide converter\<close>

text \<open>
  \<open>globalDownsampler\<close> is created once and used by every connection; \<open>audioBuffer8k\<close>
  belongs to one connection. A run is a sequence of calls of \<open>processGeminiAudioChunk\<close>,
  each by the connection named in it; it gives the frames of every call in order, with
  their connection, the converter's state and every connection's accumulator.
\<close>

fun run_calls ::
  "'r resampler \<Rightarrow> 'r \<Rightarrow> (nat \<Rightarrow> int list) \<Rightarrow> (nat \<times> buffer) list \<Rightarrow>
     (nat \<times> buffer list) list \<times> 'r \<times> (nat \<Rightarrow> int list)" where
  "run_calls full r accs [] = ([], r, accs)"
| "run_calls full r accs ((c, inputBuffer) # calls) =
     (let (fs, r', acc') = processGeminiAudioChunk full r (accs c) inputBuffer;
          (out, r'', accs'') = run_calls full r' (accs(c := acc')) calls
      in ((c, fs) # out, r'', accs''))"

definition frames_of :: "nat \<Rightarrow> (nat \<times> buffer list) list \<Rightarrow> buffer list" where
  "frames_of c out = concat (map snd (filter (\<lambda>p. fst p = c) out))"

definition calls_of :: "nat \<Rightarrow> (nat \<times> buffer) list \<Rightarrow> (nat \<times> buffer) list" where
  "calls_of c calls = filter (\<lambda>p. fst p = c) calls"

text \<open>
  Every call of a run with the state in which it finds the shared converter, and the
  chunks of one connection processed on its own accumulator, each with the converter
  state given beside it.
\<close>

fun states_met :: "'r resampler \<Rightarrow> 'r \<Rightarrow> (nat \<times> buffer) list \<Rightarrow> (nat \<times> 'r \<times> buffer) list" where
  "states_met full r [] = []"
| "states_met full r ((c, inputBuffer) # calls) =
     (c, r, inputBuffer) # states_met full (snd (full r (int16_view inputBuffer))) calls"

fun session_run :: "'r resampler \<Rightarrow> int list \<Rightarrow> ('r \<times> buffer) list \<Rightarrow> buffer list \<times> int list" where
  "session_run full acc [] = ([], acc)"
| "session_run full acc ((r, inputBuffer) # rest) =
     (let (fs, r', acc') = processGeminiAudioChunk full r acc inputBuffer;
          (gs, acc'') = session_run full acc' rest
      in (fs @ gs, acc''))"

section \<open>Tools\<close>

datatype error =
  ToolNotFound string
  | ModuleLoadFailed string
  | HandlerThrew string
  | ConnectFailed string

record transcript_entry =
  speaker :: string
  entry_text :: string
  timestamp :: string

type_synonym transcripts = "string \<rightharpoonup> transcript_entry list"

type_synonym args = "(string \<times> string) list"

text \<open>
  A tool module's \<open>handler(sessionUuid, args, context)\<close>: the text it returns, or the
  exception it throws. The two tool directories map a tool name to what \<open>require\<close>
  gives for the file \<open>name.js\<close>, when that file exists: the module's handler, or the
  exception thrown while the module loads.
\<close>

type_synonym tool_handler = "string option \<Rightarrow> args \<Rightarrow> transcripts \<Rightarrow> error + string"

type_synonym tool_dir = "string \<rightharpoonup> error + tool_handler"

text \<open>
  \<open>getToolHandler\<close>: the first of \<open>avr_tools/name.js\<close> and \<open>tools/name.js\<close> that
  exists; it throws when neither does, and when loading the module found throws.
  The value returned is written as an option, since the caller tests it with
  \<open>!handler\<close>.
\<close>

definition getToolHandler :: "tool_dir \<Rightarrow> tool_dir \<Rightarrow> string \<Rightarrow> error + tool_handler option" where
  "getToolHandler avr_tools tools name =
     (case avr_tools name of
        Some (Inl e) \<Rightarrow> Inl e
      | Some (Inr tool) \<Rightarrow>
          Inr (Some (\<lambda>sessionUuid args context. tool sessionUuid args context))
      | None \<Rightarrow>
          (case tools name of
             Some (Inl e) \<Rightarrow> Inl e
           | Some (Inr tool) \<Rightarrow>
               Inr (Some (\<lambda>sessionUuid args context. tool sessionUuid args context))
           | None \<Rightarrow> Inl (ToolNotFound name)))"

record function_call =
  fc_id :: string
  fc_name :: string
  fc_args :: args

record function_response =
  fr_id :: string
  fr_name :: string
  fr_result :: string

definition fallback_text :: string where
  "fallback_text = ''I'' @ [CHR 0x27] @ ''m sorry, I cannot retrieve the requested information.''"

text \<open>
  The loop of the tool-call branch: \<open>for (const fc of functionCalls) { ... }\<close>, started
  with \<open>functionResponses = []\<close>. An exception of \<open>getToolHandler\<close> or of the awaited
  handler leaves the loop and the callback.
\<close>

fun tool_loop ::
  "tool_dir \<Rightarrow> tool_dir \<Rightarrow> string option \<Rightarrow> transcripts \<Rightarrow> function_call list \<Rightarrow>
     function_response list \<Rightarrow> error + function_response list" where
  "tool_loop avr_tools tools uuid ts [] functionResponses = Inr functionResponses"
| "tool_loop avr_tools tools uuid ts (fc # fcs) functionResponses =
     (case getToolHandler avr_tools tools (fc_name fc) of
        Inl e \<Rightarrow> Inl e
      | Inr None \<Rightarrow>
          tool_loop avr_tools tools uuid ts fcs
            (functionResponses @
               [\<lparr>fr_id = fc_id fc, fr_name = fc_name fc, fr_result = fallback_text\<rparr>])
      | Inr (Some handler) \<Rightarrow>
          (case handler uuid (fc_args fc) ts of
             Inl e \<Rightarrow> Inl e
           | Inr res \<Rightarrow>
               tool_loop avr_tools tools uuid ts fcs
                 (functionResponses @
                    [\<lparr>fr_id = fc_id fc, fr_name = fc_name fc, fr_result = res\<rparr>])))"

section \<open>Connections\<close>

datatype client_event =
  AudioEvent buffer
  | ErrorEvent string
  | InterruptionEvent

datatype upstream_input =
  RealtimeText string
  | RealtimeAudio buffer
  | ToolResponse "function_response list"

text \<open>
  The process-wide state (\<open>globalDownsampler\<close>, \<open>globalUpsampler\<close>, \<open>transcripts\<close>) and
  the variables of one call of \<open>handleClientConnection\<close>, with what has been sent to the
  client and to the upstream session so far and whether \<open>clientWs.close()\<close> was called.
\<close>

record 'r server =
  globalDownsampler :: 'r
  globalUpsampler :: 'r
  transcripts :: transcripts

record connection =
  sessionUuid :: "string option"
  audioBuffer8k :: "int list"
  session :: "nat option"
  audioFrames :: "buffer list"
  client_sent :: "client_event list"
  client_closed :: bool
  upstream_sent :: "upstream_input list"

definition new_connection :: connection where
  "new_connection =
     \<lparr>sessionUuid = None, audioBuffer8k = [], session = None, audioFrames = [],
      client_sent = [], client_closed = False, upstream_sent = []\<rparr>"

record part =
  inlineData :: "buffer option"
  part_text :: "string option"

record gemini_message =
  setupComplete :: bool
  msg_text :: "string option"
  modelTurn_parts :: "part list option"
  toolCall_functionCalls :: "function_call list option"
  interrupted :: bool

text \<open>
  \<open>if (transcripts.has(sessionUuid)) transcripts.get(sessionUuid).push(entry)\<close>; the
  clock reading \<open>now\<close> is a parameter.
\<close>

definition push_transcript ::
  "string option \<Rightarrow> string \<Rightarrow> string \<Rightarrow> string \<Rightarrow> transcripts \<Rightarrow> transcripts" where
  "push_transcript uuid who txt now ts =
     (case uuid of
        None \<Rightarrow> ts
      | Some u \<Rightarrow>
          (case ts u of
             None \<Rightarrow> ts
           | Some es \<Rightarrow>
               ts(u \<mapsto> es @ [\<lparr>speaker = who, entry_text = txt, timestamp = now\<rparr>])))"

text \<open>One part of a model turn: an audio part is converted and its frames are sent.\<close>

definition handle_part ::
  "'r resampler \<Rightarrow> string \<Rightarrow> part \<Rightarrow> 'r server \<times> connection \<Rightarrow> 'r server \<times> connection" where
  "handle_part full now p sc =
     (let (srv, conn) = sc;
          (srv1, conn1) =
            (case inlineData p of
               None \<Rightarrow> (srv, conn)
             | Some audioChunk \<Rightarrow>
                 (let (frames, r', rest) =
                        processGeminiAudioChunk full (globalDownsampler srv)
                          (audioBuffer8k conn) audioChunk
                  in (srv\<lparr>globalDownsampler := r'\<rparr>,
                      conn\<lparr>audioBuffer8k := rest, audioFrames := frames,
                           client_sent := client_sent conn @ map AudioEvent frames\<rparr>)))
      in (case part_text p of
            None \<Rightarrow> (srv1, conn1)
          | Some t \<Rightarrow>
              (srv1\<lparr>transcripts :=
                 push_transcript (sessionUuid conn1) ''AI'' t now (transcripts srv1)\<rparr>, conn1)))"

fun handle_parts ::
  "'r resampler \<Rightarrow> string \<Rightarrow> part list \<Rightarrow> 'r server \<times> connection \<Rightarrow> 'r server \<times> connection" where
  "handle_parts full now [] sc = sc"
| "handle_parts full now (p # ps) sc = handle_parts full now ps (handle_part full now p sc)"

text \<open>
  The \<open>onmessage\<close> callback of the upstream session. The third component is the
  exception that leaves the callback, if any.
\<close>

definition onmessage ::
  "'r resampler \<Rightarrow> tool_dir \<Rightarrow> tool_dir \<Rightarrow> string \<Rightarrow> gemini_message \<Rightarrow>
     'r server \<times> connection \<Rightarrow> 'r server \<times> connection \<times> error option" where
  "onmessage full avr_tools tools now message sc =
     (let (srv, conn) = sc in
      if setupComplete message then (srv, conn, None)
      else
        (let srv1 =
               (case msg_text message of
                  None \<Rightarrow> srv
                | Some t \<Rightarrow>
                    srv\<lparr>transcripts :=
                      push_transcript (sessionUuid conn) ''User'' t now (transcripts srv)\<rparr>)
         in (case modelTurn_parts message of
               Some parts \<Rightarrow>
                 (let (srv2, conn2) = handle_parts full now parts (srv1, conn)
                  in (srv2, conn2, None))
             | None \<Rightarrow>
                 (case toolCall_functionCalls message of
                    Some functionCalls \<Rightarrow>
                      (case tool_loop avr_tools tools (sessionUuid conn) (transcripts srv1)
                              functionCalls [] of
                         Inl e \<Rightarrow> (srv1, conn, Some e)
                       | Inr functionResponses \<Rightarrow>
                           (srv1,
                            conn\<lparr>upstream_sent :=
                              upstream_sent conn @ [ToolResponse functionResponses]\<rparr>,
                            None))
                  | None \<Rightarrow>
                      (if interrupted message
                       then (srv1,
                             conn\<lparr>audioFrames := [],
                                  client_sent := client_sent conn @ [InterruptionEvent]\<rparr>,
                             None)
                       else (srv1, conn, None))))))"

text \<open>The \<open>onerror\<close> and \<open>onclose\<close> callbacks of the upstream session.\<close>

definition onerror :: "string \<Rightarrow> connection \<Rightarrow> connection" where
  "onerror e_message conn = conn\<lparr>client_sent := client_sent conn @ [ErrorEvent e_message]\<rparr>"

definition onclose :: "connection \<Rightarrow> connection" where
  "onclose conn = conn\<lparr>client_closed := True\<rparr>"

text \<open>
  \<open>initializeGeminiConnection\<close>: the outcome of \<open>connectToGeminiSdk\<close> (a session handle,
  or the exception of a failed connect) is a parameter. Sending the first text on a
  session that has just been opened is taken to succeed.
\<close>

definition initializeGeminiConnection :: "error + nat \<Rightarrow> connection \<Rightarrow> connection" where
  "initializeGeminiConnection connected conn =
     (case connected of
        Inr h \<Rightarrow>
          conn\<lparr>session := Some h,
               upstream_sent := upstream_sent conn @ [RealtimeText ''Please start the conversation.'']\<rparr>
      | Inl e \<Rightarrow>
          conn\<lparr>client_sent :=
            client_sent conn @ [ErrorEvent ''Failed to initialize Gemini connection'']\<rparr>)"

text \<open>
  Messages of the client after \<open>JSON.parse\<close> and the switch on \<open>message.type\<close>; a text
  that does not parse is \<open>Malformed\<close>. The \<open>audio\<close> field is given decoded; a missing
  field is \<open>None\<close>, and an empty string, which decodes to the empty buffer, is falsy
  like a missing one. \<open>convert8kTo16k\<close> calls the upsampler and stores its result as
  16-bit samples.
\<close>

datatype client_message =
  Malformed
  | Init string
  | Audio "buffer option"
  | UnknownType

definition convert8kTo16k :: "'r resampler \<Rightarrow> 'r \<Rightarrow> buffer \<Rightarrow> buffer \<times> 'r" where
  "convert8kTo16k full_up r inputBuffer =
     (let (upsampledSamples, r') = full_up r (int16_view inputBuffer)
      in (frame_buffer upsampledSamples, r'))"

definition on_client_message ::
  "'r resampler \<Rightarrow> error + nat \<Rightarrow> client_message \<Rightarrow> 'r server \<times> connection \<Rightarrow>
     'r server \<times> connection" where
  "on_client_message full_up connected message sc =
     (let (srv, conn) = sc in
      case message of
        Malformed \<Rightarrow> (srv, conn)
      | Init uuid \<Rightarrow>
          (srv\<lparr>transcripts := (transcripts srv)(uuid \<mapsto> [])\<rparr>,
           initializeGeminiConnection connected (conn\<lparr>sessionUuid := Some uuid\<rparr>))
      | Audio a \<Rightarrow>
          (case (a, session conn) of
             (Some audioBuffer, Some h) \<Rightarrow>
               (if audioBuffer = [] then (srv, conn)
                else
                  (let (upsampledAudio, r') =
                         convert8kTo16k full_up (globalUpsampler srv) audioBuffer
                   in (srv\<lparr>globalUpsampler := r'\<rparr>,
                       conn\<lparr>upstream_sent :=
                         upstream_sent conn @ [RealtimeAudio upsampledAudio]\<rparr>)))
           | _ \<Rightarrow> (srv, conn))
      | UnknownType \<Rightarrow> (srv, conn))"

text \<open>Messages of the upstream session arriving one after the other.\<close>

fun onmessages ::
  "'r resampler \<Rightarrow> tool_dir \<Rightarrow> tool_dir \<Rightarrow> string \<Rightarrow> gemini_message list \<Rightarrow>
     'r server \<times> connection \<Rightarrow> 'r server \<times> connection" where
  "onmessages full avr_tools tools now [] sc = sc"
| "onmessages full avr_tools tools now (m # ms) sc =
     (let (srv, conn, e) = onmessage full avr_tools tools now m sc
      in onmessages full avr_tools tools now ms (srv, conn))"

text \<open>
  Upstream messages with one field set: a model turn with one audio part, an
  interruption, a batch of tool calls.
\<close>

definition audio_message :: "buffer \<Rightarrow> gemini_message" where
  "audio_message b =
     \<lparr>setupComplete = False, msg_text = None,
      modelTurn_parts = Some [\<lparr>inlineData = Some b, part_text = None\<rparr>],
      toolCall_functionCalls = None, interrupted = False\<rparr>"

definition interruption_message :: gemini_message where
  "interruption_message =
     \<lparr>setupComplete = False, msg_text = None, modelTurn_parts = None,
      toolCall_functionCalls = None, interrupted = True\<rparr>"

definition tool_call_message :: "function_call list \<Rightarrow> gemini_message" where
  "tool_call_message fcs =
     \<lparr>setupComplete = False, msg_text = None, modelTurn_parts = None,
      toolCall_functionCalls = Some fcs, interrupted = False\<rparr>"

text \<open>The process-wide state after \<open>initializeResamplers\<close>, before any connection.\<close>

definition initial_server :: "converter server" where
  "initial_server =
     \<lparr>globalDownsampler = create 1 24000 8000, globalUpsampler = create 1 8000 16000,
      transcripts = Map.empty\<rparr>"

text \<open>The handler of \<open>tools/get_transcript.js\<close>.\<close>

definition format_entry :: "transcript_entry \<Rightarrow> string" where
  "format_entry e = ''['' @ timestamp e @ ''] '' @ speaker e @ '': '' @ entry_text e"

fun join_lines :: "string list \<Rightarrow> string" where
  "join_lines [] = []"
| "join_lines [l] = l"
| "join_lines (l # ls) = l @ [CHR 0x0A] @ join_lines ls"

definition get_transcript_handler :: tool_handler where
  "get_transcript_handler uuid args ts =
     (case (case uuid of None \<Rightarrow> None | Some u \<Rightarrow> ts u) of
        Some transcript \<Rightarrow>
          (if length transcript = 0 then Inr ''The transcript is currently empty.''
           else Inr (''Here is the transcript of our conversation:'' @ [CHR 0x0A]
                       @ join_lines (map format_entry transcript)))
      | None \<Rightarrow>
          Inr (''I'' @ [CHR 0x27] @ ''m sorry, I couldn'' @ [CHR 0x27]
                 @ ''t retrieve the transcript for this session.''))"

section \<open>Calendar times\<close>

text \<open>
  \<open>s.split(c)\<close> for a one-character separator, \<open>Number(s)\<close>, \<open>n.toString()\<close> on an
  integer and \<open>s.padStart(2, '0')\<close>. \<open>Number_js\<close> gives the value of a run of decimal
  digits up to \<open>2 ^ 53 - 1\<close>, where a double holds every integer exactly. \<open>None\<close>
  stands for every other string: the model does not follow the code there (it
  computes with \<open>NaN\<close>, a signed, fractional or rounded number).
\<close>

fun split_on :: "char \<Rightarrow> string \<Rightarrow> string list" where
  "split_on c [] = [[]]"
| "split_on c (x # xs) =
     (if x = c then [] # split_on c xs
      else (case split_on c xs of [] \<Rightarrow> [[x]] | w # ws \<Rightarrow> (x # w) # ws))"

definition digit_val :: "char \<Rightarrow> nat option" where
  "digit_val c = map_of (zip ''0123456789'' [0, 1, 2, 3, 4, 5, 6, 7, 8, 9]) c"

definition digit_char :: "nat \<Rightarrow> char" where
  "digit_char n = ''0123456789'' ! (n mod 10)"

fun digits_value :: "string \<Rightarrow> nat \<Rightarrow> nat option" where
  "digits_value [] acc = Some acc"
| "digits_value (c # cs) acc =
     (case digit_val c of None \<Rightarrow> None | Some d \<Rightarrow> digits_value cs (10 * acc + d))"

definition Number_js :: "string \<Rightarrow> int option" where
  "Number_js s =
     (case digits_value s 0 of
        None \<Rightarrow> None
      | Some n \<Rightarrow> if n \<le> 9007199254740991 then Some (int n) else None)"

function nat_digits :: "nat \<Rightarrow> string" where
  "nat_digits n = (if n < 10 then [digit_char n] else nat_digits (n div 10) @ [digit_char n])"
  by pat_completeness auto
termination
  by (relation "measure id") auto

declare nat_digits.simps [simp del]

definition toString :: "int \<Rightarrow> string" where
  "toString n = (if n < 0 then CHR ''-'' # nat_digits (nat (- n)) else nat_digits (nat n))"

definition padStart2 :: "string \<Rightarrow> string" where
  "padStart2 s = replicate (2 - length s) CHR ''0'' @ s"

text \<open>The remainder \<open>a % b\<close> of JavaScript takes the sign of \<open>a\<close>.\<close>

definition js_rem :: "int \<Rightarrow> int \<Rightarrow> int" where
  "js_rem a b = sgn a * (\<bar>a\<bar> mod \<bar>b\<bar>)"

text \<open>
  The two template strings \<open>startUtc\<close> and \<open>endUtc\<close> have one shape:
  \<open>year-MM-DDTHH:MM:00Z\<close>, every field but the year padded to two characters.
\<close>

definition utc_stamp :: "int \<Rightarrow> int \<Rightarrow> int \<Rightarrow> int \<Rightarrow> int \<Rightarrow> string" where
  "utc_stamp year month day hour minute =
     toString year @ ''-'' @ padStart2 (toString month) @ ''-'' @ padStart2 (toString day)
       @ ''T'' @ padStart2 (toString hour) @ '':'' @ padStart2 (toString minute) @ '':00Z''"

text \<open>
  The lines of \<open>checkAvailability\<close> that compute \<open>timeMin\<close> and \<open>timeMax\<close> of the
  free/busy request, with the start and end hours they use. The result is \<open>None\<close> where
  the model does not follow the code: the date has fewer than three fields or the time
  fewer than two (the code throws on the missing field), or \<open>Number_js\<close> gives \<open>None\<close>
  for a field (the code goes on with that number).
\<close>

record utc_times =
  utcHour :: int
  utcEndHour :: int
  startUtc :: string
  endUtc :: string

definition checkAvailability_times :: "string \<Rightarrow> string \<Rightarrow> int \<Rightarrow> utc_times option" where
  "checkAvailability_times date time duration_minutes =
     (case map Number_js (split_on CHR ''-'' date) of
        Some year # Some month # Some day # _ \<Rightarrow>
          (case map Number_js (split_on CHR '':'' time) of
             Some hour # Some minute # _ \<Rightarrow>
               (let utcHour' = hour - 1;
                    startUtc' = utc_stamp year month day utcHour' minute;
                    endMinute = minute + duration_minutes;
                    endHour = hour + endMinute div 60;
                    endMin = js_rem endMinute 60;
                    utcEndHour' = endHour - 1;
                    endUtc' = utc_stamp year month day utcEndHour' endMin
                in Some \<lparr>utcHour = utcHour', utcEndHour = utcEndHour',
                         startUtc = startUtc', endUtc = endUtc'\<rparr>)
           | _ \<Rightarrow> None)
      | _ \<Rightarrow> None)"

text \<open>The same lines of \<open>bookAppointment\<close>, for \<open>start.dateTime\<close> and \<open>end.dateTime\<close>.\<close>

definition bookAppointment_times :: "string \<Rightarrow> string \<Rightarrow> int \<Rightarrow> utc_times option" where
  "bookAppointment_times date time duration_minutes =
     (case map Number_js (split_on CHR ''-'' date) of
        Some year # Some month # Some day # _ \<Rightarrow>
          (case map Number_js (split_on CHR '':'' time) of
             Some hour # Some minute # _ \<Rightarrow>
               (let utcHour' = hour - 1;
                    startUtc' = utc_stamp year month day utcHour' minute;
                    endMinute = minute + duration_minutes;
                    endHour = hour + endMinute div 60;
                    endMin = js_rem endMinute 60;
                    utcEndHour' = endHour - 1;
                    endUtc' = utc_stamp year month day utcEndHour' endMin
                in Some \<lparr>utcHour = utcHour', utcEndHour = utcEndHour',
                         startUtc = startUtc', endUtc = endUtc'\<rparr>)
           | _ \<Rightarrow> None)
      | _ \<Rightarrow> None)"

text \<open>
  The hour field of a timestamp: the characters after the first \<open>T\<close> up to the next
  colon. A time of ISO 8601 writes the hour as two decimal digits.
\<close>

definition hour_field :: "string \<Rightarrow> string" where
  "hour_field s = takeWhile (\<lambda>c. c \<noteq> CHR '':'') (drop 1 (dropWhile (\<lambda>c. c \<noteq> CHR ''T'') s))"

definition iso_hour :: "string \<Rightarrow> bool" where
  "iso_hour h = (length h = 2 \<and> list_all (\<lambda>c. digit_val c \<noteq> None) h)"

text \<open>The text \<open>HH:MM\<close> of an hour and a minute below 100, two digits each.\<close>

definition two_digits :: "nat \<Rightarrow> string" where
  "two_digits n = [digit_char (n div 10), digit_char n]"

definition hh_mm :: "nat \<Rightarrow> nat \<Rightarrow> string" where
  "hh_mm h m = two_digits h @ '':'' @ two_digits m"

section \<open>Properties of frame extraction\<close>

lemma length_int16_bytes: "length (int16_bytes w) = 2"
  by (simp add: int16_bytes_def)

lemma length_frame_buffer: "length (frame_buffer xs) = 2 * length xs"
  by (induction xs) (simp_all add: frame_buffer_def length_int16_bytes)

lemma frame_buffer_append: "frame_buffer (xs @ ys) = frame_buffer xs @ frame_buffer ys"
  by (simp add: frame_buffer_def)

lemma chunk160_short: "length b < 160 \<Longrightarrow> chunk160 b = []"
  by (simp add: chunk160.simps [of b])

lemma chunk160_long:
  "160 \<le> length b \<Longrightarrow> chunk160 b = take 160 b # chunk160 (drop 160 b)"
  by (simp add: chunk160.simps [of b])

lemma length_chunk160: "length (chunk160 b) = length b div 160"
proof (induction b rule: chunk160.induct)
  case (1 b)
  show ?case
  proof (cases "160 \<le> length b")
    case True
    have "length b div 160 = Suc ((length b - 160) div 160)"
      using True by (simp add: le_div_geq)
    with True "1.IH" show ?thesis by (simp add: chunk160_long)
  next
    case False
    then show ?thesis by (simp add: chunk160_short)
  qed
qed

lemma chunk160_lengths: "c \<in> set (chunk160 b) \<Longrightarrow> length c = 160"
proof (induction b rule: chunk160.induct)
  case (1 b)
  show ?case
  proof (cases "160 \<le> length b")
    case True
    with "1.prems" have "c = take 160 b \<or> c \<in> set (chunk160 (drop 160 b))"
      by (simp add: chunk160_long)
    with True "1.IH" show ?thesis by auto
  next
    case False
    with "1.prems" show ?thesis by (simp add: chunk160_short)
  qed
qed

lemma concat_chunk160: "concat (chunk160 b) = take (160 * (length b div 160)) b"
proof (induction b rule: chunk160.induct)
  case (1 b)
  show ?case
  proof (cases "160 \<le> length b")
    case True
    have d: "length b div 160 = Suc ((length b - 160) div 160)"
      using True by (simp add: le_div_geq)
    have "concat (chunk160 b) = take 160 b @ concat (chunk160 (drop 160 b))"
      using True by (simp add: chunk160_long)
    also have "\<dots> = take 160 b @ take (160 * ((length b - 160) div 160)) (drop 160 b)"
      using True "1.IH" by simp
    also have "\<dots> = take (160 + 160 * ((length b - 160) div 160)) b"
      by (simp add: take_add)
    finally show ?thesis by (simp add: d)
  next
    case False
    then show ?thesis by (simp add: chunk160_short)
  qed
qed

lemma extract_frames_eq:
  "extract_frames b fs =
     (fs @ map frame_buffer (chunk160 b), drop (160 * (length b div 160)) b)"
proof (induction b fs rule: extract_frames.induct)
  case (1 b fs)
  show ?case
  proof (cases "160 \<le> length b")
    case True
    have d: "length b div 160 = Suc ((length b - 160) div 160)"
      using True by (simp add: le_div_geq)
    have "extract_frames b fs =
            extract_frames (drop 160 b) (fs @ [frame_buffer (take 160 b)])"
      using True by (simp add: extract_frames.simps [of b fs])
    also have "\<dots> = ((fs @ [frame_buffer (take 160 b)]) @ map frame_buffer (chunk160 (drop 160 b)),
                     drop (160 * (length (drop 160 b) div 160)) (drop 160 b))"
      using True by (rule "1.IH")
    also have "\<dots> = (fs @ map frame_buffer (chunk160 b), drop (160 * (length b div 160)) b)"
      using True by (simp add: chunk160_long d add.commute)
    finally show ?thesis .
  next
    case False
    then show ?thesis by (simp add: extract_frames.simps [of b fs] chunk160_short)
  qed
qed

lemma chunk160_append_rest:
  "chunk160 (a @ b) = chunk160 a @ chunk160 (drop (160 * (length a div 160)) a @ b)"
proof (induction a rule: chunk160.induct)
  case (1 a)
  show ?case
  proof (cases "160 \<le> length a")
    case True
    have d: "length a div 160 = Suc ((length a - 160) div 160)"
      using True by (simp add: le_div_geq)
    have "chunk160 (a @ b) = take 160 a # chunk160 (drop 160 a @ b)"
      using True by (simp add: chunk160_long)
    also have "chunk160 (drop 160 a @ b) =
        chunk160 (drop 160 a) @
        chunk160 (drop (160 * (length (drop 160 a) div 160)) (drop 160 a) @ b)"
      using True by (rule "1.IH")
    finally show ?thesis
      using True by (simp add: chunk160_long d add.commute)
  next
    case False
    then show ?thesis by (simp add: chunk160_short)
  qed
qed

lemma drop_rest_append:
  "drop (160 * (length (drop (160 * (length a div 160)) a @ b) div 160))
        (drop (160 * (length a div 160)) a @ b) =
   drop (160 * (length (a @ b) div 160)) (a @ b)"
proof -
  define q where "q = length a div 160"
  define ra where "ra = drop (160 * q) a"
  define q' where "q' = length (ra @ b) div 160"
  have la: "length a = 160 * q + length ra"
    unfolding ra_def q_def by simp
  have "length (a @ b) = 160 * q + length (ra @ b)"
    using la by simp
  then have d: "length (a @ b) div 160 = q + q'"
    unfolding q'_def by simp
  have "a @ b = take (160 * q) a @ (ra @ b)"
    unfolding ra_def by simp
  moreover have "length (take (160 * q) a) = 160 * q"
    using la by simp
  ultimately have "drop (160 * q + 160 * q') (a @ b) = drop (160 * q') (ra @ b)"
    by (metis append_eq_conv_conj drop_drop add.commute)
  then show ?thesis
    unfolding d ra_def [symmetric] q_def [symmetric] q'_def [symmetric]
    by (simp add: distrib_left)
qed

lemma processGeminiAudioChunk_eq:
  "processGeminiAudioChunk full r acc buf =
     (map frame_buffer (chunk160 (acc @ fst (full r (int16_view buf)))),
      snd (full r (int16_view buf)),
      drop (160 * (length (acc @ fst (full r (int16_view buf))) div 160))
        (acc @ fst (full r (int16_view buf))))"
  by (simp add: processGeminiAudioChunk_def extract_frames_eq split: prod.splits)



lemma length_drop_rest: "length (drop (160 * (length a div 160)) (a::'a list)) < 160"
proof -
  have "length a - 160 * (length a div 160) = length a mod 160"
    by (simp add: minus_mult_div_eq_mod)
  then show ?thesis by simp
qed

lemma process_chunks_eq:
  "length acc < 160 \<Longrightarrow>
   fst (process_chunks full r acc chunks) =
     map frame_buffer (chunk160 (acc @ converted_stream full r chunks)) \<and>
   snd (snd (process_chunks full r acc chunks)) =
     drop (160 * (length (acc @ converted_stream full r chunks) div 160))
       (acc @ converted_stream full r chunks)"
proof (induction chunks arbitrary: r acc)
  case Nil
  then show ?case by (simp add: chunk160_short)
next
  case (Cons c cs)
  obtain ys r' where f: "full r (int16_view c) = (ys, r')"
    by (cases "full r (int16_view c)")
  define acc' where "acc' = drop (160 * (length (acc @ ys) div 160)) (acc @ ys)"
  have p: "processGeminiAudioChunk full r acc c = (map frame_buffer (chunk160 (acc @ ys)), r', acc')"
    by (simp add: processGeminiAudioChunk_eq f acc'_def)
  have "length acc' < 160"
    unfolding acc'_def by (rule length_drop_rest)
  note ih = Cons.IH [OF this, of r']
  have s: "converted_stream full r (c # cs) = ys @ converted_stream full r' cs"
    by (simp add: f)
  have c1: "chunk160 ((acc @ ys) @ converted_stream full r' cs) =
        chunk160 (acc @ ys) @ chunk160 (acc' @ converted_stream full r' cs)"
    unfolding acc'_def by (rule chunk160_append_rest)
  have c2: "drop (160 * (length (acc' @ converted_stream full r' cs) div 160))
              (acc' @ converted_stream full r' cs) =
            drop (160 * (length ((acc @ ys) @ converted_stream full r' cs) div 160))
              ((acc @ ys) @ converted_stream full r' cs)"
    unfolding acc'_def by (rule drop_rest_append)
  have e1: "fst (process_chunks full r acc (c # cs)) =
          map frame_buffer (chunk160 (acc @ ys)) @ fst (process_chunks full r' acc' cs)"
    by (simp add: p split: prod.splits)
  have e2: "snd (snd (process_chunks full r acc (c # cs))) =
          snd (snd (process_chunks full r' acc' cs))"
    by (simp add: p split: prod.splits)
  have a: "acc @ converted_stream full r (c # cs) = (acc @ ys) @ converted_stream full r' cs"
    unfolding s by simp
  have "fst (process_chunks full r acc (c # cs)) =
          map frame_buffer (chunk160 (acc @ converted_stream full r (c # cs)))"
    unfolding e1 a c1 using ih by simp
  moreover have "snd (snd (process_chunks full r acc (c # cs))) =
     drop (160 * (length (acc @ converted_stream full r (c # cs)) div 160))
       (acc @ converted_stream full r (c # cs))"
    unfolding e2 a c2 [symmetric] using ih by blast
  ultimately show ?case by blast
qed

lemma concat_frames:
  "concat (map frame_buffer xss) = frame_buffer (concat xss)"
  by (induction xss) (simp_all add: frame_buffer_append, simp add: frame_buffer_def)

lemma length_int16_view: "length (int16_view bs) = length bs div 2"
  by (induction bs rule: int16_view.induct) simp_all

lemma int16_view_append_even:
  "even (length xs) \<Longrightarrow> int16_view (xs @ ys) = int16_view xs @ int16_view ys"
  by (induction xs rule: int16_view.induct) simp_all

lemma int16_view_split: "int16_view (take (2 * i) buf) @ int16_view (drop (2 * i) buf) = int16_view buf"
proof (cases "2 * i \<le> length buf")
  case True
  then have "even (length (take (2 * i) buf))" by (simp add: min_def)
  then have "int16_view (take (2 * i) buf @ drop (2 * i) buf) =
             int16_view (take (2 * i) buf) @ int16_view (drop (2 * i) buf)"
    by (rule int16_view_append_even)
  then show ?thesis by simp
next
  case False
  then show ?thesis by simp
qed


lemma decimate_short: "\<not> (0 < k \<and> k \<le> length xs) \<Longrightarrow> decimate k xs = ([], xs)"
  by (auto simp add: decimate.simps [of k xs])

lemma decimate_long:
  "0 < k \<Longrightarrow> k \<le> length xs \<Longrightarrow>
   decimate k xs = (hd xs # fst (decimate k (drop k xs)), snd (decimate k (drop k xs)))"
  by (simp add: decimate.simps [of k xs] split: prod.splits)

lemma length_decimate: "0 < k \<Longrightarrow> length (fst (decimate k xs)) = length xs div k"
proof (induction k xs rule: decimate.induct)
  case (1 k xs)
  show ?case
  proof (cases "k \<le> length xs")
    case True
    have "length xs div k = Suc ((length xs - k) div k)"
      using True "1.prems" by (simp add: le_div_geq)
    with True "1.prems" "1.IH" show ?thesis by (simp add: decimate_long)
  next
    case False
    then show ?thesis by (simp add: decimate_short)
  qed
qed

lemma decimate_append:
  "decimate k (xs @ ys) =
     (fst (decimate k xs) @ fst (decimate k (snd (decimate k xs) @ ys)),
      snd (decimate k (snd (decimate k xs) @ ys)))"
proof (induction k xs rule: decimate.induct)
  case (1 k xs)
  show ?case
  proof (cases "0 < k \<and> k \<le> length xs")
    case True
    then have ne: "xs \<noteq> []" by auto
    have "decimate k (xs @ ys) =
            (hd (xs @ ys) # fst (decimate k (drop k (xs @ ys))),
             snd (decimate k (drop k (xs @ ys))))"
      using True by (simp add: decimate_long)
    moreover have "drop k (xs @ ys) = drop k xs @ ys" using True by simp
    moreover have "hd (xs @ ys) = hd xs" using ne by simp
    ultimately show ?thesis
      using True "1.IH" by (simp add: decimate_long)
  next
    case False
    then show ?thesis by (simp add: decimate_short)
  qed
qed

lemma converter_full_append:
  "converter_full c (xs @ ys) =
     (let (o1, c1) = converter_full c xs; (o2, c2) = converter_full c1 ys
      in (o1 @ o2, c2))"
proof (cases "src_rate c < dst_rate c")
  case True
  then show ?thesis by (simp add: converter_full_def)
next
  case False
  define k where "k = src_rate c div dst_rate c"
  obtain o1 h1 where d1: "decimate k (history c @ xs) = (o1, h1)"
    by (cases "decimate k (history c @ xs)")
  have d: "decimate k (history c @ xs @ ys) =
      (o1 @ fst (decimate k (h1 @ ys)), snd (decimate k (h1 @ ys)))"
    using decimate_append [of k "history c @ xs" ys] by (simp add: d1)
  have f1: "converter_full c xs = (map sint o1, c\<lparr>history := h1\<rparr>)"
    using False by (simp add: converter_full_def k_def [symmetric] d1)
  have f2: "converter_full (c\<lparr>history := h1\<rparr>) ys =
      (map sint (fst (decimate k (h1 @ ys))), c\<lparr>history := snd (decimate k (h1 @ ys))\<rparr>)"
    using False by (simp add: converter_full_def k_def [symmetric] split_beta)
  have f: "converter_full c (xs @ ys) =
      (map sint o1 @ map sint (fst (decimate k (h1 @ ys))),
       c\<lparr>history := snd (decimate k (h1 @ ys))\<rparr>)"
    using False by (simp add: converter_full_def k_def [symmetric] d)
  show ?thesis
    by (simp add: f f1 f2)
qed

lemma int16_view_pairs:
  "int16_view (concat (replicate n [lo, hi])) = replicate n (push_bit 8 (ucast hi) OR ucast lo)"
  by (induction n) simp_all

lemma int16_view_pairs_odd:
  "int16_view (concat (replicate n [lo, hi]) @ [x]) =
     replicate n (push_bit 8 (ucast hi) OR ucast lo)"
proof -
  have "even (length (concat (replicate n [lo, hi])))"
    by (induction n) simp_all
  then have "int16_view (concat (replicate n [lo, hi]) @ [x]) =
      int16_view (concat (replicate n [lo, hi])) @ int16_view [x]"
    by (rule int16_view_append_even)
  then show ?thesis by (simp add: int16_view_pairs)
qed

lemma concat_pairs_shift:
  "concat (replicate (Suc n) [a, b]) = a # concat (replicate n [b, a]) @ [b]"
  by (induction n) simp_all

lemma decimate3_replicate_rest:
  "length ys < 3 \<Longrightarrow> decimate 3 (replicate (3 * n) x @ ys) = (replicate n x, ys)"
proof (induction n)
  case 0
  then show ?case by (simp add: decimate_short)
next
  case (Suc n)
  have d: "drop 3 (replicate (3 * Suc n) x @ ys) = replicate (3 * n) x @ ys" by simp
  have "decimate 3 (replicate (3 * Suc n) x @ ys) =
          (hd (replicate (3 * Suc n) x @ ys) # fst (decimate 3 (drop 3 (replicate (3 * Suc n) x @ ys))),
           snd (decimate 3 (drop 3 (replicate (3 * Suc n) x @ ys))))"
    by (rule decimate_long) simp_all
  then show ?case
    unfolding d Suc.IH [OF Suc.prems] by simp
qed

lemma decimate3_replicate: "decimate 3 (replicate (3 * n) x) = (replicate n x, [])"
  using decimate3_replicate_rest [of "[]" n x] by simp

lemma converter_full_replicate:
  "converter_full (create ch 24000 8000) (replicate (3 * n) x) =
     (replicate n (sint x), create ch 24000 8000)"
  by (simp add: converter_full_def create_def decimate3_replicate)

lemma frame_buffer_replicate_Suc:
  "frame_buffer (replicate (Suc n) x) = int16_bytes (word_of_int x) @ frame_buffer (replicate n x)"
  by (simp add: frame_buffer_def)

lemma length_converter_full:
  "length (fst (converter_full (create ch 24000 8000) xs)) = length xs div 3"
  by (simp add: converter_full_def create_def split_beta length_decimate)

lemma pipeline_1200:
  assumes "length buf = 1200"
  shows "length (fst (processGeminiAudioChunk converter_full (create ch 24000 8000) [] buf)) = 1"
    and "length (snd (snd (processGeminiAudioChunk converter_full (create ch 24000 8000) [] buf))) = 40"
    and "length (fst (converter_full (create ch 24000 8000) (int16_view buf))) = 200"
proof -
  show l: "length (fst (converter_full (create ch 24000 8000) (int16_view buf))) = 200"
    using assms by (simp add: length_converter_full length_int16_view)
  show "length (fst (processGeminiAudioChunk converter_full (create ch 24000 8000) [] buf)) = 1"
    by (simp add: processGeminiAudioChunk_eq length_chunk160 l)
  show "length (snd (snd (processGeminiAudioChunk converter_full (create ch 24000 8000) [] buf))) = 40"
    by (simp add: processGeminiAudioChunk_eq l)
qed

section \<open>Frames sent to the client\<close>

text \<open>
  Claim C7. Whatever the converter, the accumulator and the input buffer, every frame that
  \<open>processGeminiAudioChunk\<close> returns has exactly 320 bytes (160 samples of two bytes);
  fewer than 160 samples stay in the accumulator, and they are the samples that follow
  the emitted ones: a partial frame is not emitted, it stays buffered.
\<close>

theorem frames_fixed_size:
  "case processGeminiAudioChunk full r acc inputBuffer of
     (frames, r', rest) \<Rightarrow>
       (\<forall>f \<in> set frames. length f = 320) \<and>
       length rest < 160 \<and>
       length frames = length (acc @ fst (full r (int16_view inputBuffer))) div 160 \<and>
       rest = drop (160 * length frames) (acc @ fst (full r (int16_view inputBuffer)))"
  by (auto simp add: processGeminiAudioChunk_eq length_chunk160 length_frame_buffer
      length_drop_rest dest: chunk160_lengths)

theorem frames_fixed_size_witness:
  "case processGeminiAudioChunk converter_full (create 1 24000 8000) [] (replicate 1200 0) of
     (frames, r', rest) \<Rightarrow>
       length frames = 1 \<and> (\<forall>f \<in> set frames. length f = 320) \<and> length rest < 160"
  using frames_fixed_size [where full = converter_full and r = "create 1 24000 8000"
      and acc = "[]" and inputBuffer = "replicate 1200 0"]
    pipeline_1200(1) [of "replicate 1200 0" 1]
  by (simp split: prod.splits)


lemma chunk160_single:
  assumes "length b div 160 = 1"
  shows "map length (map frame_buffer (chunk160 b)) = [320]"
proof -
  have "length (chunk160 b) = 1" using assms by (simp add: length_chunk160)
  then obtain c where c: "chunk160 b = [c]"
    by (cases "chunk160 b") auto
  then have "c \<in> set (chunk160 b)" by simp
  then have "length c = 160" by (rule chunk160_lengths)
  then show ?thesis by (simp add: c length_frame_buffer)
qed

text \<open>
  Claim C8. From an empty accumulator and a fresh 24000 to 8000 Hz converter, a buffer of
  1200 bytes is viewed as 600 samples, converted to 200 samples, gives exactly one frame
  of 320 bytes and leaves 40 samples in the accumulator.
\<close>

theorem scenario_1200_bytes:
  "length inputBuffer = 1200 \<Longrightarrow>
   (case processGeminiAudioChunk converter_full (create 1 24000 8000) [] inputBuffer of
      (frames, r', rest) \<Rightarrow>
        length (int16_view inputBuffer) = 600 \<and>
        length (fst (converter_full (create 1 24000 8000) (int16_view inputBuffer))) = 200 \<and>
        map length frames = [320] \<and>
        length rest = 40)"
proof -
  assume a: "length inputBuffer = 1200"
  have l: "length (fst (converter_full (create 1 24000 8000) (int16_view inputBuffer))) = 200"
    using a by (rule pipeline_1200(3))
  have r: "length (snd (snd (processGeminiAudioChunk converter_full (create 1 24000 8000) []
             inputBuffer))) = 40"
    using a by (rule pipeline_1200(2))
  have f: "map length (fst (processGeminiAudioChunk converter_full (create 1 24000 8000) []
             inputBuffer)) = [320]"
  proof -
    have "length ([] @ fst (converter_full (create 1 24000 8000) (int16_view inputBuffer)))
            div 160 = 1"
      unfolding append_Nil l by simp
    then show ?thesis
      unfolding processGeminiAudioChunk_eq fst_conv by (rule chunk160_single)
  qed
  have v: "length (int16_view inputBuffer) = 600"
    using a by (simp add: length_int16_view)
  show ?thesis
    using l r f v by (simp add: split_beta)
qed

theorem scenario_1200_bytes_witness:
  "length (replicate 1200 (0::byte)) = 1200 \<and>
   (case processGeminiAudioChunk converter_full (create 1 24000 8000) [] (replicate 1200 0) of
      (frames, r', rest) \<Rightarrow> map length frames = [320] \<and> length rest = 40)"
proof -
  have h: "length (replicate 1200 (0::byte)) = 1200" by simp
  show ?thesis
    using h scenario_1200_bytes [OF h] by (simp add: split_beta)
qed

text \<open>
  Claim C9. For every sequence of chunks, the bytes of the emitted frames, in emission
  order, are the bytes of the first \<open>160 * n\<close> samples of the accumulator followed by the
  converted samples of the chunks in call order, \<open>n\<close> being the number of frames; the
  accumulator left over holds the samples after them. Frames leave the accumulator from
  the front, in the order the samples were appended.
\<close>

theorem frames_in_stream_order:
  "length acc < 160 \<Longrightarrow>
   (case process_chunks full r acc chunks of
      (frames, r', rest) \<Rightarrow>
        concat frames @ frame_buffer rest = frame_buffer (acc @ converted_stream full r chunks) \<and>
        concat frames =
          frame_buffer (take (160 * length frames) (acc @ converted_stream full r chunks)) \<and>
        rest = drop (160 * length frames) (acc @ converted_stream full r chunks))"
proof -
  assume a: "length acc < 160"
  define S where "S = acc @ converted_stream full r chunks"
  have f: "fst (process_chunks full r acc chunks) = map frame_buffer (chunk160 S)"
    and r: "snd (snd (process_chunks full r acc chunks)) = drop (160 * (length S div 160)) S"
    using process_chunks_eq [OF a, of full r chunks] unfolding S_def by blast+
  have n: "length (fst (process_chunks full r acc chunks)) = length S div 160"
    by (simp add: f length_chunk160)
  have c: "concat (fst (process_chunks full r acc chunks)) =
             frame_buffer (take (160 * (length S div 160)) S)"
    by (simp add: f concat_frames concat_chunk160)
  have "concat (fst (process_chunks full r acc chunks)) @
          frame_buffer (snd (snd (process_chunks full r acc chunks))) = frame_buffer S"
    unfolding c r frame_buffer_append [symmetric] by simp
  then show ?thesis
    using c r n unfolding S_def [symmetric] by (simp add: split_beta)
qed

theorem frames_in_stream_order_witness:
  "length ([]::int list) < 160 \<and>
   (case process_chunks converter_full (create 1 24000 8000) []
           [replicate 1200 0, replicate 1200 0] of
      (frames, r', rest) \<Rightarrow>
        concat frames @ frame_buffer rest =
          frame_buffer ([] @ converted_stream converter_full (create 1 24000 8000)
             [replicate 1200 0, replicate 1200 0]))"
proof -
  have h: "length ([]::int list) < 160" by simp
  show ?thesis
    using h frames_in_stream_order [OF h, of converter_full "create 1 24000 8000"
        "[replicate 1200 0, replicate 1200 0]"]
    by (auto simp only: split_beta)
qed


section \<open>Interruption\<close>

lemma onmessage_interruption:
  "onmessage full avr_tools tools now interruption_message (srv, conn) =
     (srv, conn\<lparr>audioFrames := [], client_sent := client_sent conn @ [InterruptionEvent]\<rparr>, None)"
  by (simp add: onmessage_def interruption_message_def)

lemma onmessage_audio:
  "onmessage full avr_tools tools now (audio_message b) (srv, conn) =
     (case processGeminiAudioChunk full (globalDownsampler srv) (audioBuffer8k conn) b of
        (frames, r', rest) \<Rightarrow>
          (srv\<lparr>globalDownsampler := r'\<rparr>,
           conn\<lparr>audioBuffer8k := rest, audioFrames := frames,
                client_sent := client_sent conn @ map AudioEvent frames\<rparr>, None))"
  by (simp add: onmessage_def audio_message_def handle_part_def split_beta)

lemma chunk_all_ones:
  "processGeminiAudioChunk converter_full (create ch 24000 8000) []
     (concat (replicate 600 [1, 0])) =
   ([frame_buffer (replicate 160 1)], create ch 24000 8000, replicate 40 1)"
proof -
  have v: "int16_view (concat (replicate 600 [1, 0])) = replicate (3 * 200) (1 :: 16 word)"
    by (simp add: int16_view_pairs)
  have c: "chunk160 (replicate 200 (1::int)) = [replicate 160 1]"
    by (simp add: chunk160_long chunk160_short)
  show ?thesis
    unfolding processGeminiAudioChunk_eq v converter_full_replicate
    by (simp add: c)
qed

lemma chunk_all_twos:
  "processGeminiAudioChunk converter_full (create ch 24000 8000) (replicate 40 1)
     (concat (replicate 600 [2, 0])) =
   ([frame_buffer (replicate 40 1 @ replicate 120 2)], create ch 24000 8000, replicate 80 2)"
proof -
  have v: "int16_view (concat (replicate 600 [2, 0])) = replicate (3 * 200) (2 :: 16 word)"
    by (simp add: int16_view_pairs)
  have c: "chunk160 (replicate 40 (1::int) @ replicate 200 2) = [replicate 40 1 @ replicate 120 2]"
    by (simp add: chunk160_long chunk160_short)
  show ?thesis
    unfolding processGeminiAudioChunk_eq v converter_full_replicate
    by (simp add: c)
qed

text \<open>
  Claim C1 says that an interruption clears the accumulator and that no frame from audio
  received before it is sent afterwards. On an interruption \<open>onmessage\<close> resets
  \<open>audioFrames\<close> and sends the \<open>interruption\<close> event, and leaves \<open>audioBuffer8k\<close> as it is
  (\<open>onmessage_interruption\<close>). Here a part of 1200 bytes with every sample 1 arrives, then
  the interruption, then a part of 1200 bytes with every sample 2: the frame sent after
  the interruption starts with the 40 samples left over from before it.
\<close>

theorem stale_samples_after_interruption:
  "client_sent (snd (onmessages converter_full avr_tools tools now
      [audio_message (concat (replicate 600 [1, 0])), interruption_message,
       audio_message (concat (replicate 600 [2, 0]))]
      (initial_server, new_connection))) =
   [AudioEvent (frame_buffer (replicate 160 1)), InterruptionEvent,
    AudioEvent (frame_buffer (replicate 40 1 @ replicate 120 2))]"
  by (simp add: onmessage_audio onmessage_interruption initial_server_def new_connection_def
      chunk_all_ones chunk_all_twos)



section \<open>Splitting a chunk\<close>

lemma split_chunk_general:
  assumes "\<forall>r xs ys. full r (xs @ ys) =
             (let (o1, r1) = full r xs; (o2, r2) = full r1 ys in (o1 @ o2, r2))"
  shows "process_chunks full r acc [take (2 * i) buf, drop (2 * i) buf] =
         process_chunks full r acc [buf]"
proof -
  define x1 where "x1 = int16_view (take (2 * i) buf)"
  define x2 where "x2 = int16_view (drop (2 * i) buf)"
  obtain o1 r1 where f1: "full r x1 = (o1, r1)" by (cases "full r x1")
  obtain o2 r2 where f2: "full r1 x2 = (o2, r2)" by (cases "full r1 x2")
  have v: "int16_view buf = x1 @ x2"
    unfolding x1_def x2_def by (rule int16_view_split [symmetric])
  have f: "full r (int16_view buf) = (o1 @ o2, r2)"
    unfolding v using assms f1 f2 by simp
  define acc1 where "acc1 = drop (160 * (length (acc @ o1) div 160)) (acc @ o1)"
  have p1: "processGeminiAudioChunk full r acc (take (2 * i) buf) =
              (map frame_buffer (chunk160 (acc @ o1)), r1, acc1)"
    by (simp add: processGeminiAudioChunk_eq x1_def [symmetric] f1 acc1_def)
  have p2: "processGeminiAudioChunk full r1 acc1 (drop (2 * i) buf) =
              (map frame_buffer (chunk160 (acc1 @ o2)), r2,
               drop (160 * (length (acc1 @ o2) div 160)) (acc1 @ o2))"
    by (simp add: processGeminiAudioChunk_eq x2_def [symmetric] f2)
  have p: "processGeminiAudioChunk full r acc buf =
              (map frame_buffer (chunk160 ((acc @ o1) @ o2)), r2,
               drop (160 * (length ((acc @ o1) @ o2) div 160)) ((acc @ o1) @ o2))"
    by (simp add: processGeminiAudioChunk_eq f)
  have c1: "chunk160 ((acc @ o1) @ o2) = chunk160 (acc @ o1) @ chunk160 (acc1 @ o2)"
    unfolding acc1_def by (rule chunk160_append_rest)
  have c2: "drop (160 * (length (acc1 @ o2) div 160)) (acc1 @ o2) =
            drop (160 * (length ((acc @ o1) @ o2) div 160)) ((acc @ o1) @ o2)"
    unfolding acc1_def by (rule drop_rest_append)
  have "process_chunks full r acc [take (2 * i) buf, drop (2 * i) buf] =
          (map frame_buffer (chunk160 (acc @ o1)) @ map frame_buffer (chunk160 (acc1 @ o2)), r2,
           drop (160 * (length (acc1 @ o2) div 160)) (acc1 @ o2))"
    by (simp add: p1 p2)
  moreover have "process_chunks full r acc [buf] =
          (map frame_buffer (chunk160 ((acc @ o1) @ o2)), r2,
           drop (160 * (length ((acc @ o1) @ o2) div 160)) ((acc @ o1) @ o2))"
    by (simp add: p)
  ultimately show ?thesis
    unfolding c1 c2 by simp
qed

lemma single_chunk_keeps_samples:
  "case process_chunks full r acc [buf] of
     (frames, r', rest) \<Rightarrow>
       concat frames @ frame_buffer rest = frame_buffer (acc @ fst (full r (int16_view buf))) \<and>
       length frames = length (acc @ fst (full r (int16_view buf))) div 160 \<and>
       length rest = length (acc @ fst (full r (int16_view buf))) mod 160"
proof -
  define S where "S = acc @ fst (full r (int16_view buf))"
  have p: "process_chunks full r acc [buf] =
      (map frame_buffer (chunk160 S), snd (full r (int16_view buf)),
       drop (160 * (length S div 160)) S)"
    by (simp add: processGeminiAudioChunk_eq S_def)
  have "concat (map frame_buffer (chunk160 S)) @ frame_buffer (drop (160 * (length S div 160)) S)
        = frame_buffer S"
    unfolding concat_frames concat_chunk160 frame_buffer_append [symmetric] by simp
  moreover have "length (drop (160 * (length S div 160)) S) = length S mod 160"
    by (simp add: minus_mult_div_eq_mod)
  ultimately show ?thesis
    unfolding p S_def [symmetric] by (simp add: length_chunk160)
qed

text \<open>
  Claim C4, as amended. With the converter of the spec, cutting an input buffer between
  two samples (at an even byte offset) and feeding the two parts one after the other
  gives the same frames in the same order, the same converter state and the same
  accumulator as feeding the buffer whole; and no converted sample is lost: the bytes of
  the frames followed by those of the accumulator are the bytes of the old accumulator
  followed by the converted samples, every full run of 160 samples being a frame.
\<close>

theorem split_chunk_same_frames:
  "process_chunks converter_full c acc [take (2 * i) buf, drop (2 * i) buf] =
     process_chunks converter_full c acc [buf] \<and>
   (case process_chunks converter_full c acc [buf] of
      (frames, c', rest) \<Rightarrow>
        concat frames @ frame_buffer rest =
          frame_buffer (acc @ fst (converter_full c (int16_view buf))) \<and>
        length frames = length (acc @ fst (converter_full c (int16_view buf))) div 160 \<and>
        length rest = length (acc @ fst (converter_full c (int16_view buf))) mod 160)"
proof -
  have "\<forall>r xs ys. converter_full r (xs @ ys) =
      (let (o1, r1) = converter_full r xs; (o2, r2) = converter_full r1 ys in (o1 @ o2, r2))"
    using converter_full_append by blast
  then have "process_chunks converter_full c acc [take (2 * i) buf, drop (2 * i) buf] =
     process_chunks converter_full c acc [buf]"
    by (rule split_chunk_general)
  then show ?thesis
    using single_chunk_keeps_samples [where full = converter_full and r = c and acc = acc
        and buf = buf] by blast
qed

lemma chunk_odd_split:
  "process_chunks converter_full (create ch 24000 8000) []
     [take 1 (concat (replicate 600 [1, 0])), drop 1 (concat (replicate 600 [1, 0]))] =
   ([frame_buffer (replicate 160 256)], (create ch 24000 8000)\<lparr>history := [256, 256]\<rparr>,
    replicate 39 256)"
proof -
  have s: "concat (replicate 600 [1, 0 :: byte]) = 1 # concat (replicate 599 [0, 1]) @ [0]"
    using concat_pairs_shift [of 599 "1 :: byte" 0] by simp
  have v1: "int16_view [1 :: byte] = []" by simp
  have v2: "int16_view (concat (replicate 599 [0, 1 :: byte]) @ [0]) =
      replicate 597 (256 :: 16 word) @ [256, 256]"
  proof -
    have "replicate 599 (256 :: 16 word) = replicate (597 + 2) 256" by simp
    also have "\<dots> = replicate 597 256 @ [256, 256]"
      unfolding replicate_add by (simp add: numeral_2_eq_2)
    finally show ?thesis by (simp add: int16_view_pairs_odd)
  qed
  have e: "converter_full (create ch 24000 8000) [] = ([], create ch 24000 8000)"
    by (simp add: converter_full_def create_def decimate_short)
  have d: "converter_full (create ch 24000 8000) (replicate 597 256 @ [256, 256]) =
      (replicate 199 256, (create ch 24000 8000)\<lparr>history := [256, 256]\<rparr>)"
    using decimate3_replicate_rest [of "[256, 256 :: 16 word]" 199 256]
    by (simp add: converter_full_def create_def)
  have c: "chunk160 (replicate 199 (256::int)) = [replicate 160 256]"
    by (simp add: chunk160_long chunk160_short)
  show ?thesis
    unfolding s
    by (simp add: processGeminiAudioChunk_eq v1 v2 e d c chunk160_short)
qed

text \<open>
  Claim C4 as stated fails at an odd byte offset: the byte before the cut is left out of
  the sample view of the first part, and the second part pairs every high byte with the
  low byte of the next sample. For 600 samples of value 1 cut after the first byte, the
  frame holds samples of value 256, the frame of the whole buffer samples of value 1.
\<close>

theorem odd_split_counterexample:
  "fst (process_chunks converter_full (create 1 24000 8000) []
     [take 1 (concat (replicate 600 [1, 0])), drop 1 (concat (replicate 600 [1, 0]))]) =
     [frame_buffer (replicate 160 256)] \<and>
   fst (process_chunks converter_full (create 1 24000 8000) [] [concat (replicate 600 [1, 0])]) =
     [frame_buffer (replicate 160 1)] \<and>
   take 2 (frame_buffer (replicate 160 256)) = [0, 1] \<and>
   take 2 (frame_buffer (replicate 160 1)) = [1, 0]"
proof -
  have r: "replicate 160 x = replicate (Suc 159) x" for x :: int by simp
  have t1: "take 2 (frame_buffer (replicate 160 256)) = [0, 1]"
    unfolding r frame_buffer_replicate_Suc by (simp add: int16_bytes_def)
  have t2: "take 2 (frame_buffer (replicate 160 1)) = [1, 0]"
    unfolding r frame_buffer_replicate_Suc by (simp add: int16_bytes_def)
  show ?thesis
    using t1 t2 chunk_odd_split [of 1] by (simp add: chunk_all_ones)
qed


section \<open>Sessions and the shared converter\<close>

text \<open>
  Claim C3, as amended. Every connection has its own accumulator, and all connections
  call the one process-wide converter: a call finds the converter in the state left by
  the call before it, of whichever connection. The frames and the accumulator of a
  connection in a run are those of processing its own chunks on its own accumulator,
  each chunk with the converter state that the calls of all connections before it have
  left.
\<close>

theorem sessions_share_converter_state:
  "frames_of c (fst (run_calls full r accs calls)) =
     fst (session_run full (accs c)
            (map snd (filter (\<lambda>p. fst p = c) (states_met full r calls)))) \<and>
   snd (snd (run_calls full r accs calls)) c =
     snd (session_run full (accs c)
            (map snd (filter (\<lambda>p. fst p = c) (states_met full r calls))))"
proof (induction calls arbitrary: r accs)
  case Nil
  show ?case by (simp add: frames_of_def)
next
  case (Cons call calls)
  obtain d buf where call: "call = (d, buf)" by (cases call)
  define r' where "r' = snd (full r (int16_view buf))"
  obtain fs acc' where p: "processGeminiAudioChunk full r (accs d) buf = (fs, r', acc')"
    by (simp add: processGeminiAudioChunk_eq r'_def)
  define out where "out = run_calls full r' (accs(d := acc')) calls"
  define met where "met = map snd (filter (\<lambda>p. fst p = c) (states_met full r' calls))"
  have rc: "run_calls full r accs (call # calls) = ((d, fs) # fst out, fst (snd out), snd (snd out))"
    by (simp add: call p out_def split_beta)
  have ih: "frames_of c (fst out) = fst (session_run full ((accs(d := acc')) c) met) \<and>
         snd (snd out) c = snd (session_run full ((accs(d := acc')) c) met)"
    unfolding out_def met_def by (rule Cons.IH)
  show ?case
  proof (cases "d = c")
    case True
    have sr: "session_run full (accs c)
        (map snd (filter (\<lambda>p. fst p = c) (states_met full r (call # calls)))) =
        (fs @ fst (session_run full acc' met), snd (session_run full acc' met))"
      using True p by (simp add: call met_def r'_def split_beta)
    have fo: "frames_of c ((d, fs) # fst out) = fs @ frames_of c (fst out)"
      using True by (simp add: frames_of_def)
    from ih True have "frames_of c (fst out) = fst (session_run full acc' met)"
      and "snd (snd out) c = snd (session_run full acc' met)"
      by simp_all
    then show ?thesis
      by (simp add: rc sr fo)
  next
    case False
    have sr: "session_run full (accs c)
        (map snd (filter (\<lambda>p. fst p = c) (states_met full r (call # calls)))) =
        session_run full (accs c) met"
      using False by (simp add: call met_def r'_def)
    have fo: "frames_of c ((d, fs) # fst out) = frames_of c (fst out)"
      using False by (simp add: frames_of_def)
    from ih False have "frames_of c (fst out) = fst (session_run full (accs c) met)"
      and "snd (snd out) c = snd (session_run full (accs c) met)"
      by simp_all
    then show ?thesis
      by (simp add: rc sr fo)
  qed
qed

lemma chunk_601_sevens:
  "processGeminiAudioChunk converter_full (create ch 24000 8000) []
     (concat (replicate 601 [7, 0])) =
   ([frame_buffer (replicate 160 7)], (create ch 24000 8000)\<lparr>history := [7]\<rparr>, replicate 40 7)"
proof -
  have v: "int16_view (concat (replicate 601 [7, 0])) = replicate 600 (7 :: 16 word) @ [7]"
  proof -
    have "replicate 601 (7 :: 16 word) = replicate (600 + 1) 7" by simp
    also have "\<dots> = replicate 600 7 @ [7]"
      unfolding replicate_add by simp
    finally show ?thesis by (simp add: int16_view_pairs)
  qed
  have d: "converter_full (create ch 24000 8000) (replicate 600 7 @ [7]) =
      (replicate 200 7, (create ch 24000 8000)\<lparr>history := [7]\<rparr>)"
    using decimate3_replicate_rest [of "[7 :: 16 word]" 200 7]
    by (simp add: converter_full_def create_def)
  have c: "chunk160 (replicate 200 (7::int)) = [replicate 160 7]"
    by (simp add: chunk160_long chunk160_short)
  show ?thesis
    by (simp add: processGeminiAudioChunk_eq v d c)
qed

lemma chunk_ones_after_seven:
  "processGeminiAudioChunk converter_full ((create ch 24000 8000)\<lparr>history := [7]\<rparr>) []
     (concat (replicate 600 [1, 0])) =
   ([frame_buffer (7 # replicate 159 1)], (create ch 24000 8000)\<lparr>history := [1]\<rparr>,
    replicate 40 1)"
proof -
  have v: "int16_view (concat (replicate 600 [1, 0])) = replicate 600 (1 :: 16 word)"
    by (simp add: int16_view_pairs)
  have r: "replicate 598 (1 :: 16 word) = replicate 597 1 @ [1]"
  proof -
    have "replicate 598 (1 :: 16 word) = replicate (597 + 1) 1" by simp
    also have "\<dots> = replicate 597 1 @ [1]"
      unfolding replicate_add by simp
    finally show ?thesis .
  qed
  have d0: "decimate 3 (7 # replicate 600 (1 :: 16 word)) =
      (hd (7 # replicate 600 (1 :: 16 word)) # fst (decimate 3 (drop 3 (7 # replicate 600 1))),
       snd (decimate 3 (drop 3 (7 # replicate 600 (1 :: 16 word)))))"
    by (rule decimate_long) simp_all
  have d1: "decimate 3 (replicate 597 (1 :: 16 word) @ [1]) = (replicate 199 1, [1])"
    using decimate3_replicate_rest [of "[1 :: 16 word]" 199 1] by simp
  have d: "decimate 3 (7 # replicate 600 (1 :: 16 word)) = (7 # replicate 199 1, [1])"
    unfolding d0 by (simp add: r d1)
  have c: "chunk160 (7 # replicate 199 (1::int)) = [7 # replicate 159 1]"
    by (simp add: chunk160_long chunk160_short)
  show ?thesis
    by (simp add: processGeminiAudioChunk_eq v converter_full_def create_def d c)
qed

text \<open>
  Claim C3 as stated fails for the converter of the spec: connection 0 sends 601 samples
  of value 7, connection 1 then sends 600 samples of value 1. The last sample of
  connection 0 stays in the converter and opens the frame of connection 1, which
  running alone gets a frame of samples of value 1 only.
\<close>

theorem shared_converter_counterexample:
  "frames_of 1 (fst (run_calls converter_full (create 1 24000 8000) (\<lambda>c. [])
       [(0, concat (replicate 601 [7, 0])), (1, concat (replicate 600 [1, 0]))])) =
     [frame_buffer (7 # replicate 159 1)] \<and>
   fst (process_chunks converter_full (create 1 24000 8000) []
       (map snd (calls_of 1
          [(0, concat (replicate 601 [7, 0])), (1, concat (replicate 600 [1, 0]))]))) =
     [frame_buffer (replicate 160 1)] \<and>
   take 2 (frame_buffer (7 # replicate 159 1)) = [7, 0] \<and>
   take 2 (frame_buffer (replicate 160 1)) = [1, 0]"
proof -
  have r: "replicate 160 x = replicate (Suc 159) x" for x :: int by simp
  have t1: "take 2 (frame_buffer (7 # replicate 159 1)) = [7, 0]"
    by (simp add: frame_buffer_def int16_bytes_def)
  have t2: "take 2 (frame_buffer (replicate 160 1)) = [1, 0]"
    unfolding r frame_buffer_replicate_Suc by (simp add: int16_bytes_def)
  show ?thesis
    using t1 t2
    by (simp add: frames_of_def calls_of_def chunk_601_sevens chunk_ones_after_seven
        chunk_all_ones)
qed


section \<open>Tool calls\<close>

lemma getToolHandler_not_falsy: "getToolHandler avr_tools tools name \<noteq> Inr None"
  by (simp add: getToolHandler_def split: option.splits sum.splits)

lemma tool_loop_append:
  "tool_loop avr_tools tools uuid ts (pre @ rest) acc =
     (case tool_loop avr_tools tools uuid ts pre acc of
        Inl e \<Rightarrow> Inl e
      | Inr frs \<Rightarrow> tool_loop avr_tools tools uuid ts rest frs)"
  by (induction pre arbitrary: acc) (simp_all split: sum.splits option.splits)

lemma tool_loop_ids:
  "tool_loop avr_tools tools uuid ts fcs acc = Inr frs \<Longrightarrow>
   map fr_id frs = map fr_id acc @ map fc_id fcs \<and>
   map fr_name frs = map fr_name acc @ map fc_name fcs"
proof (induction fcs arbitrary: acc)
  case Nil
  then show ?case by simp
next
  case (Cons fc fcs)
  from Cons.prems show ?case
    by (auto split: sum.splits option.splits dest!: Cons.IH)
qed

lemma onmessage_tool_call:
  "onmessage full avr_tools tools now (tool_call_message fcs) (srv, conn) =
     (case tool_loop avr_tools tools (sessionUuid conn) (transcripts srv) fcs [] of
        Inl e \<Rightarrow> (srv, conn, Some e)
      | Inr functionResponses \<Rightarrow>
          (srv, conn\<lparr>upstream_sent := upstream_sent conn @ [ToolResponse functionResponses]\<rparr>,
           None))"
  by (simp add: onmessage_def tool_call_message_def)

text \<open>
  Claim C2 says that a call whose name has no handler gets a response with the fallback
  text. \<open>getToolHandler\<close> throws for such a name and never returns a falsy value
  (\<open>getToolHandler_not_falsy\<close>), so the fallback branch of the loop is not reached: for a
  batch of a known and an unknown tool the exception leaves \<open>onmessage\<close> and no response
  batch is sent, not even for the call that resolved. For a batch that is answered,
  the responses carry the ids and names of the calls in call order (\<open>tool_loop_ids\<close>).
\<close>

theorem unknown_tool_aborts_batch:
  "onmessage full Map.empty [''get_transcript'' \<mapsto> Inr get_transcript_handler] now
     (tool_call_message
        [\<lparr>fc_id = ''call-1'', fc_name = ''get_transcript'', fc_args = []\<rparr>,
         \<lparr>fc_id = ''call-2'', fc_name = ''get_weather'', fc_args = []\<rparr>])
     (srv, conn) =
   (srv, conn, Some (ToolNotFound ''get_weather''))"
  by (simp add: onmessage_tool_call getToolHandler_def get_transcript_handler_def
      split: option.splits)

text \<open>
  Claim C5, as amended. When the resolved handler of a call throws, the calls before it
  in the batch having resolved and returned, the exception is not turned into a result
  text: it leaves \<open>onmessage\<close>, and the callback has sent nothing, neither a response
  batch to the upstream session nor an event to the client, whatever calls follow in
  the batch.
\<close>

theorem handler_exception_propagates:
  assumes "tool_loop avr_tools tools (sessionUuid conn) (transcripts srv) pre [] = Inr frs"
    and "getToolHandler avr_tools tools (fc_name fc) = Inr (Some handler)"
    and "handler (sessionUuid conn) (fc_args fc) (transcripts srv) = Inl e"
  shows "onmessage full avr_tools tools now (tool_call_message (pre @ fc # post)) (srv, conn) =
           (srv, conn, Some e)"
  using assms by (simp add: onmessage_tool_call tool_loop_append)

text \<open>The theorem at a batch of three calls whose second handler throws.\<close>

theorem handler_exception_propagates_witness:
  "tool_loop Map.empty
     [''get_transcript'' \<mapsto> Inr get_transcript_handler,
      ''book_appointment'' \<mapsto> Inr (\<lambda>u a c. Inl (HandlerThrew ''TypeError''))]
     (sessionUuid new_connection) (transcripts initial_server)
     [\<lparr>fc_id = ''call-1'', fc_name = ''get_transcript'', fc_args = []\<rparr>] [] =
   Inr [\<lparr>fr_id = ''call-1'', fr_name = ''get_transcript'',
         fr_result = ''I'' @ [CHR 0x27] @ ''m sorry, I couldn'' @ [CHR 0x27]
                 @ ''t retrieve the transcript for this session.''\<rparr>] \<and>
   onmessage converter_full Map.empty
     [''get_transcript'' \<mapsto> Inr get_transcript_handler,
      ''book_appointment'' \<mapsto> Inr (\<lambda>u a c. Inl (HandlerThrew ''TypeError''))] ''t''
     (tool_call_message
        ([\<lparr>fc_id = ''call-1'', fc_name = ''get_transcript'', fc_args = []\<rparr>] @
         \<lparr>fc_id = ''call-2'', fc_name = ''book_appointment'', fc_args = []\<rparr> #
         [\<lparr>fc_id = ''call-3'', fc_name = ''get_transcript'', fc_args = []\<rparr>]))
     (initial_server, new_connection) =
   (initial_server, new_connection, Some (HandlerThrew ''TypeError''))"
proof -
  let ?tools = "[''get_transcript'' \<mapsto> Inr get_transcript_handler,
      ''book_appointment'' \<mapsto> Inr (\<lambda>u a c. Inl (HandlerThrew ''TypeError''))]"
  have a: "tool_loop Map.empty ?tools
     (sessionUuid new_connection) (transcripts initial_server)
     [\<lparr>fc_id = ''call-1'', fc_name = ''get_transcript'', fc_args = []\<rparr>] [] =
   Inr [\<lparr>fr_id = ''call-1'', fr_name = ''get_transcript'',
         fr_result = ''I'' @ [CHR 0x27] @ ''m sorry, I couldn'' @ [CHR 0x27]
                 @ ''t retrieve the transcript for this session.''\<rparr>]"
    by (simp add: getToolHandler_def get_transcript_handler_def new_connection_def
        initial_server_def)
  have b: "getToolHandler Map.empty ?tools
       (fc_name \<lparr>fc_id = ''call-2'', fc_name = ''book_appointment'', fc_args = []\<rparr>) =
     Inr (Some (\<lambda>u a c. Inl (HandlerThrew ''TypeError'')))"
    by (simp add: getToolHandler_def)
  have c: "(\<lambda>u a c. Inl (HandlerThrew ''TypeError'')) (sessionUuid new_connection)
       (fc_args \<lparr>fc_id = ''call-2'', fc_name = ''book_appointment'', fc_args = []\<rparr>)
       (transcripts initial_server) = (Inl (HandlerThrew ''TypeError'') :: error + string)"
    by simp
  show ?thesis
    using a handler_exception_propagates [OF a b c] by blast
qed

text \<open>
  Claim C5 as stated fails: with a handler that throws, \<open>onmessage\<close> ends with the
  exception and has sent nothing to the upstream session.
\<close>

theorem handler_exception_counterexample:
  "onmessage converter_full Map.empty
     [''book_appointment'' \<mapsto> Inr (\<lambda>u a c. Inl (HandlerThrew ''TypeError''))] ''t''
     (tool_call_message
        [\<lparr>fc_id = ''call-1'', fc_name = ''book_appointment'', fc_args = []\<rparr>])
     (initial_server, new_connection) =
   (initial_server, new_connection, Some (HandlerThrew ''TypeError''))"
  by (simp add: onmessage_tool_call getToolHandler_def)

section \<open>Failure to open the upstream session\<close>

text \<open>
  Claim C6, as amended. When \<open>connectToGeminiSdk\<close> throws after an \<open>init\<close> message,
  exactly one \<open>error\<close> event with the text \<open>Failed to initialize Gemini connection\<close> is
  sent to the client, the session identifier and an empty transcript are stored, the
  variable \<open>session\<close> keeps the value it had (no session is stored by this \<open>init\<close>),
  nothing is sent upstream, and the client connection is left as it was: it is not
  closed.
\<close>

theorem connect_failure_reports_once:
  "on_client_message full_up (Inl e) (Init uuid) (srv, conn) =
     (srv\<lparr>transcripts := (transcripts srv)(uuid \<mapsto> [])\<rparr>,
      conn\<lparr>sessionUuid := Some uuid,
           client_sent :=
             client_sent conn @ [ErrorEvent ''Failed to initialize Gemini connection'']\<rparr>)"
  by (simp add: on_client_message_def initializeGeminiConnection_def)

text \<open>
  Claim C6 as stated fails: after the failed connect the client connection has not been
  closed.
\<close>

theorem connect_failure_counterexample:
  "\<not> client_closed (snd (on_client_message converter_full (Inl (ConnectFailed ''unreachable''))
        (Init ''abc'') (initial_server, new_connection)))"
  by (simp add: on_client_message_def initializeGeminiConnection_def new_connection_def)


section \<open>Calendar times in UTC\<close>

lemma digit_char_cases:
  "digit_char n \<in> set ''0123456789''"
proof -
  have "n mod 10 < length ''0123456789''" by simp
  then show ?thesis unfolding digit_char_def by (rule nth_mem)
qed

lemma digit_val_digit_char: "digit_val (digit_char n) = Some (n mod 10)"
proof -
  have "n mod 10 < 10" by simp
  then have "n mod 10 \<in> {0, 1, 2, 3, 4, 5, 6, 7, 8, 9}" by (simp, arith)
  then show ?thesis
    by (auto simp add: digit_val_def digit_char_def)
qed

lemma digit_char_not_colon: "digit_char n \<noteq> CHR '':''"
  using digit_char_cases [of n] by auto

lemma digit_char_not_T: "digit_char n \<noteq> CHR ''T''"
  using digit_char_cases [of n] by auto

lemma Number_two_digits: "n < 100 \<Longrightarrow> Number_js (two_digits n) = Some (int n)"
proof -
  assume "n < 100"
  then have "n div 10 mod 10 = n div 10" by simp
  then show ?thesis
    by (simp add: Number_js_def two_digits_def digit_val_digit_char)
qed

lemma split_hh_mm: "split_on CHR '':'' (hh_mm h m) = [two_digits h, two_digits m]"
  by (simp add: hh_mm_def two_digits_def digit_char_not_colon)

lemma parse_hh_mm:
  "h < 100 \<Longrightarrow> m < 100 \<Longrightarrow>
   map Number_js (split_on CHR '':'' (hh_mm h m)) = [Some (int h), Some (int m)]"
  by (simp add: split_hh_mm Number_two_digits)

lemma nat_digits_chars: "set (nat_digits n) \<subseteq> set ''0123456789''"
proof (induction n rule: nat_digits.induct)
  case (1 n)
  show ?case
  proof (cases "n < 10")
    case True
    then show ?thesis
      using digit_char_cases [of n] by (simp add: nat_digits.simps [of n])
  next
    case False
    with "1.IH" show ?thesis
      using digit_char_cases [of n] by (simp add: nat_digits.simps [of n])
  qed
qed

lemma toString_no_T: "CHR ''T'' \<notin> set (toString n)"
  using nat_digits_chars [of "nat n"] nat_digits_chars [of "nat (- n)"]
  by (auto simp add: toString_def)

lemma padStart2_no_T: "CHR ''T'' \<notin> set (padStart2 (toString n))"
  using toString_no_T [of n] by (auto simp add: padStart2_def)

lemma hour_field_stamp:
  "hour_field (utc_stamp year month day hour minute) =
     takeWhile (\<lambda>c. c \<noteq> CHR '':'') (padStart2 (toString hour) @ '':'' @ padStart2 (toString minute) @ '':00Z'')"
proof -
  define D where "D = toString year @ ''-'' @ padStart2 (toString month) @ ''-'' @ padStart2 (toString day)"
  define R where "R = padStart2 (toString hour) @ '':'' @ padStart2 (toString minute) @ '':00Z''"
  have n: "\<forall>c \<in> set D. c \<noteq> CHR ''T''"
    using toString_no_T [of year] padStart2_no_T [of month] padStart2_no_T [of day]
    unfolding D_def by auto
  have s: "utc_stamp year month day hour minute = D @ CHR ''T'' # R"
    by (simp add: utc_stamp_def D_def R_def)
  have "dropWhile (\<lambda>c. c \<noteq> CHR ''T'') (D @ CHR ''T'' # R) = CHR ''T'' # R"
    using n by (simp add: dropWhile_append3)
  then show ?thesis
    unfolding hour_field_def s R_def by simp
qed

lemma toString_minus_one: "padStart2 (toString (- 1)) = ''-1''"
  by (simp add: toString_def padStart2_def nat_digits.simps [of "Suc 0"] digit_char_def)

lemma hour_field_minus_one:
  "hour_field (utc_stamp year month day (- 1) minute) = ''-1''"
  by (simp add: hour_field_stamp toString_minus_one)

lemma not_iso_hour_minus_one: "\<not> iso_hour ''-1''"
  by (simp add: iso_hour_def digit_val_def)


lemma nat_digits_no_colon: "CHR '':'' \<notin> set (nat_digits n)"
  using nat_digits_chars [of n] by auto

lemma padStart2_no_colon: "CHR '':'' \<notin> set (padStart2 (toString n))"
  using nat_digits_no_colon [of "nat n"] nat_digits_no_colon [of "nat (- n)"]
  by (auto simp add: padStart2_def toString_def)

lemma hour_field_utc_stamp:
  "hour_field (utc_stamp year month day hour minute) = padStart2 (toString hour)"
proof -
  have "\<forall>c \<in> set (padStart2 (toString hour)). c \<noteq> CHR '':''"
    using padStart2_no_colon [of hour] by auto
  then have "takeWhile (\<lambda>c. c \<noteq> CHR '':'')
          (padStart2 (toString hour) @ CHR '':'' # padStart2 (toString minute) @ '':00Z'') =
        padStart2 (toString hour)"
    by (simp add: takeWhile_tail)
  then show ?thesis
    by (simp add: hour_field_stamp)
qed

lemma div_lower_bound: "60 * k \<le> (n::int) \<Longrightarrow> k \<le> n div 60"
proof -
  assume "60 * k \<le> n"
  then have "(60 * k) div 60 \<le> n div 60" by (rule zdiv_mono1) simp
  then show ?thesis by simp
qed

lemma div_upper_bound: "(n::int) < 60 * k \<Longrightarrow> n div 60 < k"
proof -
  assume a: "n < 60 * k"
  have "60 * (n div 60) \<le> n" by simp
  with a have "60 * (n div 60) < 60 * k" by linarith
  then show ?thesis by simp
qed

lemma times_eq:
  assumes "h < 100" and "m < 100"
    and "map Number_js (split_on CHR ''-'' date) = Some year # Some month # Some day # rest"
  shows "checkAvailability_times date (hh_mm h m) d =
           Some \<lparr>utcHour = int h - 1, utcEndHour = int h + (int m + d) div 60 - 1,
                 startUtc = utc_stamp year month day (int h - 1) (int m),
                 endUtc = utc_stamp year month day (int h + (int m + d) div 60 - 1)
                            (js_rem (int m + d) 60)\<rparr>"
    and "bookAppointment_times date (hh_mm h m) d = checkAvailability_times date (hh_mm h m) d"
proof -
  have p: "map Number_js (split_on CHR '':'' (hh_mm h m)) = [Some (int h), Some (int m)]"
    using assms(1,2) by (rule parse_hh_mm)
  show "checkAvailability_times date (hh_mm h m) d =
           Some \<lparr>utcHour = int h - 1, utcEndHour = int h + (int m + d) div 60 - 1,
                 startUtc = utc_stamp year month day (int h - 1) (int m),
                 endUtc = utc_stamp year month day (int h + (int m + d) div 60 - 1)
                            (js_rem (int m + d) 60)\<rparr>"
    unfolding checkAvailability_times_def assms(3) p by (simp add: Let_def)
  show "bookAppointment_times date (hh_mm h m) d = checkAvailability_times date (hh_mm h m) d"
    unfolding checkAvailability_times_def bookAppointment_times_def ..
qed

text \<open>
  Claim C10, as amended. For a time \<open>HH:MM\<close> of two digits each and a date of three numeric fields,
  \<open>checkAvailability\<close> and \<open>bookAppointment\<close> compute the same times: the start hour is
  \<open>HH - 1\<close> and the end hour \<open>HH + (MM + duration) div 60 - 1\<close>, whatever the date, and the
  hour fields of the two timestamps are these numbers as \<open>toString\<close> and \<open>padStart\<close>
  write them. For \<open>HH = 0\<close> the hour field of the start is \<open>-1\<close>, which is not an hour
  of two digits. The end hour is not wrapped: when the end lies at or after 01:00 local
  time of the next day (midnight on the clock one hour behind), the end hour is 24 or
  more; when it lies at or after local midnight and before 01:00, the end hour is 23.
\<close>

theorem utc_hours_fixed_offset:
  assumes "h < 100" and "m < 100"
    and "map Number_js (split_on CHR ''-'' date) = Some year # Some month # Some day # rest"
  shows
    "let t = \<lparr>utcHour = int h - 1, utcEndHour = int h + (int m + d) div 60 - 1,
              startUtc = utc_stamp year month day (int h - 1) (int m),
              endUtc = utc_stamp year month day (int h + (int m + d) div 60 - 1)
                         (js_rem (int m + d) 60)\<rparr>
     in checkAvailability_times date (hh_mm h m) d = Some t \<and>
        bookAppointment_times date (hh_mm h m) d = Some t \<and>
        hour_field (startUtc t) = padStart2 (toString (utcHour t)) \<and>
        hour_field (endUtc t) = padStart2 (toString (utcEndHour t)) \<and>
        (h = 0 \<longrightarrow> hour_field (startUtc t) = ''-1'' \<and> \<not> iso_hour (hour_field (startUtc t))) \<and>
        (1440 \<le> (int h - 1) * 60 + int m + d \<longrightarrow> 24 \<le> utcEndHour t) \<and>
        (1440 \<le> int h * 60 + int m + d \<and> int h * 60 + int m + d < 1500 \<longrightarrow>
           utcEndHour t = 23)"
proof -
  have a: "1440 \<le> (int h - 1) * 60 + int m + d \<longrightarrow> 24 \<le> int h + (int m + d) div 60 - 1"
  proof
    assume "1440 \<le> (int h - 1) * 60 + int m + d"
    then have "60 * (25 - int h) \<le> int m + d" by simp
    then have "25 - int h \<le> (int m + d) div 60" by (rule div_lower_bound)
    then show "24 \<le> int h + (int m + d) div 60 - 1" by linarith
  qed
  have b: "1440 \<le> int h * 60 + int m + d \<and> int h * 60 + int m + d < 1500 \<longrightarrow>
      int h + (int m + d) div 60 - 1 = 23"
  proof
    assume a: "1440 \<le> int h * 60 + int m + d \<and> int h * 60 + int m + d < 1500"
    then have "60 * (24 - int h) \<le> int m + d" by simp
    then have l: "24 - int h \<le> (int m + d) div 60" by (rule div_lower_bound)
    from a have "int m + d < 60 * (25 - int h)" by simp
    then have "(int m + d) div 60 < 25 - int h" by (rule div_upper_bound)
    with l show "int h + (int m + d) div 60 - 1 = 23" by linarith
  qed
  have c: "h = 0 \<longrightarrow> hour_field (utc_stamp year month day (int h - 1) (int m)) = ''-1''"
    by (simp add: hour_field_minus_one)
  show ?thesis
    unfolding Let_def
    using times_eq [OF assms, of d] a b c not_iso_hour_minus_one
    by (simp add: hour_field_utc_stamp)
qed



lemma hh_mm_examples: "hh_mm 0 30 = ''00:30''" "hh_mm 23 30 = ''23:30''"
  by (simp_all add: hh_mm_def two_digits_def digit_char_def)

lemma parse_date_example:
  "map Number_js (split_on CHR ''-'' ''2025-12-24'') = Some 2025 # Some 12 # Some 24 # []"
  by (simp add: Number_js_def digit_val_def)

lemmas nat_digits_examples =
  nat_digits.simps [of 2025] nat_digits.simps [of 202] nat_digits.simps [of 20]
  nat_digits.simps [of 2] nat_digits.simps [of 12] nat_digits.simps [of "Suc 0"]
  nat_digits.simps [of 24] nat_digits.simps [of 30] nat_digits.simps [of 3]
  nat_digits.simps [of 22] nat_digits.simps [of 0] nat_digits.simps [of 23]
  nat_digits.simps [of 15]

lemma stamp_examples:
  "utc_stamp 2025 12 24 (- 1) 30 = ''2025-12-24T-1:30:00Z''"
  "utc_stamp 2025 12 24 0 0 = ''2025-12-24T00:00:00Z''"
  "utc_stamp 2025 12 24 22 30 = ''2025-12-24T22:30:00Z''"
  "utc_stamp 2025 12 24 24 0 = ''2025-12-24T24:00:00Z''"
  "utc_stamp 2025 12 24 23 15 = ''2025-12-24T23:15:00Z''"
  "utc_stamp 2025 12 24 23 30 = ''2025-12-24T23:30:00Z''"
  by (simp_all add: utc_stamp_def toString_def padStart2_def nat_digits_examples digit_char_def)

text \<open>
  The theorem at 00:30 for 30 minutes and at 23:30 for 90 minutes on 2025-12-24, with the
  timestamps written out.
\<close>

theorem utc_hours_fixed_offset_witness:
  "(0::nat) < 100 \<and> (23::nat) < 100 \<and> (30::nat) < 100 \<and>
   map Number_js (split_on CHR ''-'' ''2025-12-24'') = [Some 2025, Some 12, Some 24] \<and>
   checkAvailability_times ''2025-12-24'' ''00:30'' 30 =
     Some \<lparr>utcHour = - 1, utcEndHour = 0, startUtc = ''2025-12-24T-1:30:00Z'',
           endUtc = ''2025-12-24T00:00:00Z''\<rparr> \<and>
   hour_field ''2025-12-24T-1:30:00Z'' = ''-1'' \<and>
   \<not> iso_hour (hour_field ''2025-12-24T-1:30:00Z'') \<and>
   (1440::int) \<le> (int 23 - 1) * 60 + int 30 + 90 \<and>
   bookAppointment_times ''2025-12-24'' ''23:30'' 90 =
     Some \<lparr>utcHour = 22, utcEndHour = 24, startUtc = ''2025-12-24T22:30:00Z'',
           endUtc = ''2025-12-24T24:00:00Z''\<rparr> \<and>
   (1440::int) \<le> int 23 * 60 + int 30 + 45 \<and> int 23 * 60 + int 30 + 45 < (1500::int) \<and>
   bookAppointment_times ''2025-12-24'' ''23:30'' 45 =
     Some \<lparr>utcHour = 22, utcEndHour = 23, startUtc = ''2025-12-24T22:30:00Z'',
           endUtc = ''2025-12-24T23:15:00Z''\<rparr>"
proof -
  have h0: "(0::nat) < 100" and h23: "(23::nat) < 100" and h30: "(30::nat) < 100"
    by simp_all
  note a = utc_hours_fixed_offset [OF h0 h30 parse_date_example, of 30]
  note b = utc_hours_fixed_offset [OF h23 h30 parse_date_example, of 90]
  note c = utc_hours_fixed_offset [OF h23 h30 parse_date_example, of 45]
  have a': "checkAvailability_times ''2025-12-24'' ''00:30'' 30 =
     Some \<lparr>utcHour = - 1, utcEndHour = 0, startUtc = ''2025-12-24T-1:30:00Z'',
           endUtc = ''2025-12-24T00:00:00Z''\<rparr> \<and>
     hour_field ''2025-12-24T-1:30:00Z'' = ''-1'' \<and>
     \<not> iso_hour (hour_field ''2025-12-24T-1:30:00Z'')"
    using a by (simp add: Let_def hh_mm_examples stamp_examples js_rem_def toString_minus_one
        not_iso_hour_minus_one)
  have b': "bookAppointment_times ''2025-12-24'' ''23:30'' 90 =
     Some \<lparr>utcHour = 22, utcEndHour = 24, startUtc = ''2025-12-24T22:30:00Z'',
           endUtc = ''2025-12-24T24:00:00Z''\<rparr>"
    using b by (simp add: Let_def hh_mm_examples stamp_examples js_rem_def)
  have c': "bookAppointment_times ''2025-12-24'' ''23:30'' 45 =
     Some \<lparr>utcHour = 22, utcEndHour = 23, startUtc = ''2025-12-24T22:30:00Z'',
           endUtc = ''2025-12-24T23:15:00Z''\<rparr>"
    using c by (simp add: Let_def hh_mm_examples stamp_examples js_rem_def)
  show ?thesis
    using a' b' c' parse_date_example by (simp add: not_iso_hour_minus_one)
qed

text \<open>
  Claim C10 as stated fails: an appointment at 23:30 for 60 minutes ends after midnight,
  at 00:30 of the next day, and the end timestamp has the hour 23.
\<close>

theorem end_after_midnight_counterexample:
  "bookAppointment_times ''2025-12-24'' ''23:30'' 60 =
     Some \<lparr>utcHour = 22, utcEndHour = 23, startUtc = ''2025-12-24T22:30:00Z'',
           endUtc = ''2025-12-24T23:30:00Z''\<rparr>"
proof -
  have h23: "(23::nat) < 100" and h30: "(30::nat) < 100"
    by simp_all
  show ?thesis
    using times_eq [OF h23 h30 parse_date_example, of 60]
    by (simp add: hh_mm_examples stamp_examples js_rem_def)
qed


end
